theory Spec2Isabelle
  imports Main "HOL-Library.Word"
begin

unbundle bit_operations_syntax

section \<open>The ADF4350 driver (drivers/ADF4350/ADF4350.c)\<close>

text \<open>
  The driver computes the divider configuration of the ADF4350 synthesizer for a requested
  output frequency (\<open>adf4350_set_freq\<close>, with its helpers \<open>adf4350_tune_r_cnt\<close> and
  \<open>gcd\<close>) and writes the six configuration registers over SPI (\<open>adf4350_sync_config\<close>,
  \<open>adf4350_write\<close>).

  Machine integers are words of their C width: \<open>+\<close>, \<open>-\<close> and \<open>*\<close> wrap, \<open>div\<close> and
  \<open>mod\<close> are the unsigned operations, \<open>unat\<close> reads a word as unsigned. A value of a signed
  C type (\<open>int32_t\<close>, \<open>int64_t\<close>) is carried as its two's complement bit pattern and read
  with \<open>sint\<close>. An operation without a defined result in C is a branch of the model
  that returns no value: every division and remainder of the source is guarded (a zero
  divisor gives \<open>None\<close>, in \<open>gcd\<close> the error \<open>Div_By_Zero\<close>), and so are the decrement of
  the signed \<open>tmp\<close> of \<open>gcd\<close> at \<open>INT32_MIN\<close> (\<open>Signed_Overflow\<close>) and the shift by 64 or
  more.
\<close>

type_synonym u8 = "8 word"
type_synonym u16 = "16 word"
type_synonym u32 = "32 word"
type_synonym u64 = "64 word"
type_synonym s32 = "32 word"
type_synonym s64 = "64 word"

subsection \<open>State\<close>

text \<open>
  Modelled from the spec: \<open>struct adf4350_platform_data\<close> is declared in ADF4350.h,
  which is not among the sources. The record has the fields of the spec's PlatformConfig
  (reference input frequency, channel spacing, power-up frequency, fixed reference division
  factor, doubler and divide-by-2 enables, raw bits for registers 2, 3 and 4) under the
  names ADF4350.c reads them by, with widths that hold the values assigned from them; the
  two enables are only ever tested for being non-zero.
\<close>

record adf4350_platform_data =
  pd_clkin :: u32
  channel_spacing :: u32
  power_up_frequency :: u64
  ref_div_factor :: u16
  ref_doubler_en :: bool
  ref_div2_en :: bool
  r2_user_settings :: u32
  r3_user_settings :: u32
  r4_user_settings :: u32

text \<open>\<open>struct adf4350_state\<close>; the arrays \<open>regs[6]\<close> and \<open>regs_hw[6]\<close> are lists.\<close>

record adf4350_state =
  pdata :: adf4350_platform_data
  clkin :: u32
  chspc :: u32
  fpfd :: u32
  min_out_freq :: u32
  r0_fract :: u32
  r0_int :: u32
  r1_mod :: u32
  r4_rf_div_sel :: u32
  regs :: "u32 list"
  regs_hw :: "u32 list"
  val :: u32

text \<open>A state whose two register arrays have their six elements.\<close>

definition wf_state :: "adf4350_state \<Rightarrow> bool" where
  "wf_state st = (length (regs st) = 6 \<and> length (regs_hw st) = 6)"

subsection \<open>The serial bus\<close>

text \<open>
  \<open>SPI_TransferData\<close> (spi.h) is the transport, outside the driver. The bus is the list
  of transfers made so far, each the list of bytes sent; the transport's return code is a
  parameter of the model, a function of the bus and of the bytes to send.
\<close>

type_synonym spi_bus = "u8 list list"
type_synonym spi_dev = "spi_bus \<Rightarrow> u8 list \<Rightarrow> s32"

definition txData :: "u32 \<Rightarrow> u8 list" where
  "txData data =
     [ucast (drop_bit 24 (data AND 0xFF000000)),
      ucast (drop_bit 16 (data AND 0x00FF0000)),
      ucast (drop_bit 8 (data AND 0x0000FF00)),
      ucast (drop_bit 0 (data AND 0x000000FF))]"

definition adf4350_write :: "spi_dev \<Rightarrow> u32 \<Rightarrow> spi_bus \<Rightarrow> s32 \<times> spi_bus" where
  "adf4350_write spi data bus = (spi bus (txData data), bus @ [txData data])"

subsection \<open>adf4350_sync_config\<close>

text \<open>
  One iteration of the \<open>for\<close> loop, at register index \<open>i\<close>: the first component of the
  result is \<open>Some ret\<close> when the iteration returns \<open>ret\<close> from the function (a failed
  write), \<open>None\<close> when the loop goes on; the second is \<open>doublebuf\<close>.
\<close>

definition sync_reg ::
  "spi_dev \<Rightarrow> nat \<Rightarrow> bool \<Rightarrow> adf4350_state \<Rightarrow> spi_bus \<Rightarrow>
     s32 option \<times> bool \<times> adf4350_state \<times> spi_bus" where
  "sync_reg spi i doublebuf st bus =
     (if regs_hw st ! i \<noteq> regs st ! i \<or> (i = 0 \<and> doublebuf) then
        let doublebuf' = (if i = 1 \<or> i = 4 then True else doublebuf);
            st1 = st\<lparr>val := regs st ! i OR of_nat i\<rparr>;
            (ret, bus1) = adf4350_write spi (val st1) bus
        in if sint ret < 0 then (Some ret, doublebuf', st1, bus1)
           else (None, doublebuf', st1\<lparr>regs_hw := (regs_hw st1)[i := regs st1 ! i]\<rparr>, bus1)
      else (None, doublebuf, st, bus))"

text \<open>The loop \<open>for (i = ADF4350_REG5; i >= ADF4350_REG0; i--)\<close>, from index \<open>i\<close> down to 0.\<close>

fun sync_loop ::
  "spi_dev \<Rightarrow> nat \<Rightarrow> bool \<Rightarrow> adf4350_state \<Rightarrow> spi_bus \<Rightarrow> s32 \<times> adf4350_state \<times> spi_bus" where
  "sync_loop spi 0 doublebuf st bus =
     (case sync_reg spi 0 doublebuf st bus of
        (Some ret, _, st', bus') \<Rightarrow> (ret, st', bus')
      | (None, _, st', bus') \<Rightarrow> (0, st', bus'))"
| "sync_loop spi (Suc i) doublebuf st bus =
     (case sync_reg spi (Suc i) doublebuf st bus of
        (Some ret, _, st', bus') \<Rightarrow> (ret, st', bus')
      | (None, doublebuf', st', bus') \<Rightarrow> sync_loop spi i doublebuf' st' bus')"

definition adf4350_sync_config ::
  "spi_dev \<Rightarrow> adf4350_state \<Rightarrow> spi_bus \<Rightarrow> s32 \<times> adf4350_state \<times> spi_bus" where
  "adf4350_sync_config spi st bus = sync_loop spi 5 False st bus"

subsection \<open>The constants and macros of ADF4350.h\<close>

text \<open>
  ADF4350.h is not among the sources, so the limits and the register bit macros that
  ADF4350.c takes from it are parameters of the model: one record, passed to every
  function that uses a macro. A limit has the type of the value it is compared with; a
  macro with an argument is a function on 32-bit words. The register numbers
  \<open>ADF4350_REG0\<close> .. \<open>ADF4350_REG5\<close> are 0 .. 5, the indices of \<open>regs[6]\<close> (the spec:
  "iterates register indices from 5 down to 0").
\<close>

record adf4350_hdr =
  MAX_OUT_FREQ :: u64
  MIN_OUT_FREQ :: u64
  MIN_VCO_FREQ :: u64
  MAX_FREQ_45_PRESC :: u64
  MAX_FREQ_PFD :: u32
  MAX_BANDSEL_CLK :: u32
  MAX_MODULUS :: u32
  MAX_R_CNT :: u16
  REG0_FRACT :: "u32 \<Rightarrow> u32"
  REG0_INT :: "u32 \<Rightarrow> u32"
  REG1_MOD :: "u32 \<Rightarrow> u32"
  REG1_PHASE :: "u32 \<Rightarrow> u32"
  REG1_PRESCALER :: u32
  REG2_PD_POLARITY_POS :: u32
  REG2_LDP_6ns :: u32
  REG2_LDF_INT_N :: u32
  REG2_CHARGE_PUMP_CURR_uA :: "u32 \<Rightarrow> u32"
  REG2_DOUBLE_BUFF_EN :: u32
  REG2_10BIT_R_CNT :: "u32 \<Rightarrow> u32"
  REG2_RDIV2_EN :: u32
  REG2_RMULT2_EN :: u32
  REG2_MUXOUT :: "u32 \<Rightarrow> u32"
  REG2_NOISE_MODE :: "u32 \<Rightarrow> u32"
  REG3_12BIT_CLKDIV :: "u32 \<Rightarrow> u32"
  REG3_12BIT_CLKDIV_MODE :: "u32 \<Rightarrow> u32"
  REG3_12BIT_CSR_EN :: u32
  REG4_OUTPUT_PWR :: "u32 \<Rightarrow> u32"
  REG4_RF_OUT_EN :: u32
  REG4_AUX_OUTPUT_PWR :: "u32 \<Rightarrow> u32"
  REG4_AUX_OUTPUT_EN :: u32
  REG4_AUX_OUTPUT_FUND :: u32
  REG4_MUTE_TILL_LOCK_EN :: u32
  REG4_8BIT_BAND_SEL_CLKDIV :: "u32 \<Rightarrow> u32"
  REG4_RF_DIV_SEL :: "u32 \<Rightarrow> u32"
  REG4_FEEDBACK_FUND :: u32
  REG5_LD_PIN_MODE_DIGITAL :: u32

subsection \<open>adf4350_tune_r_cnt\<close>

text \<open>
  The \<open>do ... while\<close> loop. \<open>r_cnt\<close> is a \<open>uint16_t\<close>: \<open>r_cnt++\<close> wraps from 65535 to 0.
  The numerator \<open>st->clkin * (... ? 2 : 1)\<close> is a 32-bit unsigned product; the divisor
  \<open>r_cnt * (... ? 2 : 1)\<close> is an \<open>int\<close> of at most 131070, converted to unsigned for the
  division, and is zero exactly when \<open>r_cnt\<close> has wrapped to 0. The result is the value
  returned (an \<open>int32_t\<close>) and the state with its \<open>fpfd\<close>.
\<close>

function adf4350_tune_r_cnt ::
  "adf4350_hdr \<Rightarrow> adf4350_state \<Rightarrow> u16 \<Rightarrow> (s32 \<times> adf4350_state) option" where
  "adf4350_tune_r_cnt hdr st r_cnt =
     (let r_cnt' = r_cnt + 1;
          num = clkin st * (if ref_doubler_en (pdata st) then 2 else 1);
          den = (ucast r_cnt' :: u32) * (if ref_div2_en (pdata st) then 2 else 1)
      in if den = 0 then None
         else let st' = st\<lparr>fpfd := num div den\<rparr>
              in if fpfd st' > MAX_FREQ_PFD hdr then adf4350_tune_r_cnt hdr st' r_cnt'
                 else Some (ucast r_cnt', st'))"
  by pat_completeness auto
termination
proof (relation "measure (\<lambda>(hdr, st, r_cnt). 65536 - unat r_cnt)")
  show "wf (measure (\<lambda>(hdr, st, r_cnt). 65536 - unat r_cnt))" by simp
next
  fix hdr :: adf4350_hdr and st :: adf4350_state and r_cnt r_cnt' :: u16 and num den :: u32
    and st' :: adf4350_state
  assume r: "r_cnt' = r_cnt + 1"
    and den: "den = (ucast r_cnt' :: u32) * (if ref_div2_en (pdata st) then 2 else 1)"
    and nz: "den \<noteq> 0"
  from den nz have "r_cnt' \<noteq> 0" by auto
  with r have "unat r_cnt' = Suc (unat r_cnt)"
    using unatSuc [of r_cnt] by (simp add: add.commute)
  moreover have "unat r_cnt' < 65536" using unsigned_less [of r_cnt'] by simp
  ultimately show "((hdr, st', r_cnt'), (hdr, st, r_cnt))
      \<in> measure (\<lambda>(hdr, st, r_cnt). 65536 - unat r_cnt)"
    by simp
qed

declare adf4350_tune_r_cnt.simps [simp del]

lemma tune_r_cnt_grows:
  "adf4350_tune_r_cnt hdr st r_cnt = Some (ret, st') \<Longrightarrow>
     \<exists>r :: u16. ret = ucast r \<and> unat r_cnt < unat r"
proof (induction hdr st r_cnt rule: adf4350_tune_r_cnt.induct)
  case (1 hdr st r_cnt)
  define r where "r = r_cnt + 1"
  define den where "den = (ucast r :: u32) * (if ref_div2_en (pdata st) then 2 else 1)"
  define st1 where
    "st1 = st\<lparr>fpfd := clkin st * (if ref_doubler_en (pdata st) then 2 else 1) div den\<rparr>"
  from "1.prems" have nz: "den \<noteq> 0"
    by (subst (asm) adf4350_tune_r_cnt.simps) (auto simp: Let_def den_def r_def split: if_splits)
  then have "r \<noteq> 0" by (auto simp: den_def)
  then have step: "unat r = Suc (unat r_cnt)"
    using unatSuc [of r_cnt] by (simp add: add.commute r_def)
  note tune = "1.prems" [unfolded adf4350_tune_r_cnt.simps [of hdr st r_cnt]]
  show ?case
  proof (cases "fpfd st1 > MAX_FREQ_PFD hdr")
    case True
    with tune nz have "adf4350_tune_r_cnt hdr st1 r = Some (ret, st')"
      by (simp add: Let_def den_def r_def st1_def)
    from "1.IH" [OF r_def refl den_def nz st1_def True this] step
    show ?thesis by auto
  next
    case False
    with tune nz have "ret = ucast r"
      by (simp add: Let_def den_def r_def st1_def)
    with step show ?thesis by auto
  qed
qed

subsection \<open>gcd\<close>

text \<open>
  The two operations without a defined result that \<open>gcd\<close> and the reduction around its
  call can meet: a remainder or division by zero, and the overflow of a signed decrement.
\<close>

datatype c_undefined = Div_By_Zero | Signed_Overflow

text \<open>
  The linear search downwards from the smaller argument. \<open>tmp\<close> is an \<open>int32_t\<close>, carried
  as its bit pattern (an argument of \<open>2 ^ 31\<close> or more makes it negative). In \<open>x % tmp\<close> it
  is converted to \<open>uint32_t\<close>, so the remainder is the unsigned one on the bit pattern, and
  has no defined result when \<open>tmp\<close> is 0. \<open>tmp--\<close> at \<open>INT32_MIN\<close>, the bit pattern
  \<open>0x80000000\<close>, is a signed overflow and has no defined result either.
\<close>

function gcd_loop :: "u32 \<Rightarrow> u32 \<Rightarrow> s32 \<Rightarrow> c_undefined + u32" where
  "gcd_loop x y tmp =
     (if tmp = 0 then Inl Div_By_Zero
      else if x mod tmp \<noteq> 0 \<or> y mod tmp \<noteq> 0
      then (if tmp = 0x80000000 then Inl Signed_Overflow else gcd_loop x y (tmp - 1))
      else Inr tmp)"
  by pat_completeness auto
termination
  by (relation "measure (\<lambda>(x, y, tmp). unat tmp)") (simp_all add: unat_minus_one unat_gt_0)

declare gcd_loop.simps [simp del]

definition gcd_adf4350 :: "u32 \<Rightarrow> u32 \<Rightarrow> c_undefined + u32" where
  "gcd_adf4350 x y = gcd_loop x y (if y > x then x else y)"

subsection \<open>adf4350_set_freq\<close>

text \<open>
  The output divider loop \<open>while (freq < ADF4350_MIN_VCO_FREQ) { freq <<= 1;
  st->r4_rf_div_sel++; }\<close> on the 64-bit \<open>freq\<close>. It does not return when \<open>freq\<close> is (or
  becomes) 0 below a positive limit: \<open>None\<close>.
\<close>

partial_function (option) rf_div_loop ::
  "adf4350_hdr \<Rightarrow> u64 \<Rightarrow> adf4350_state \<Rightarrow> (u64 \<times> adf4350_state) option" where
  "rf_div_loop hdr freq st =
     (if freq < MIN_VCO_FREQ hdr
      then rf_div_loop hdr (push_bit 1 freq) (st\<lparr>r4_rf_div_sel := r4_rf_div_sel st + 1\<rparr>)
      else Some (freq, st))"

declare rf_div_loop.simps [code]

text \<open>
  The divide ratio, \<open>tmp = freq * (uint64_t)st->r1_mod + (st->fpfd > 1); tmp = (tmp /
  st->fpfd);\<close>, in 64-bit unsigned arithmetic; the source's comment on the division reads
  "Div round closest (n + d/2)/d".
\<close>

definition div_ratio :: "u64 \<Rightarrow> u32 \<Rightarrow> u32 \<Rightarrow> u64 option" where
  "div_ratio freq mod_v pfd =
     (if pfd = 0 then None
      else Some ((freq * ucast mod_v + (if pfd > 1 then 1 else 0)) div ucast pfd))"

lemma search_decreases:
  assumes tune: "adf4350_tune_r_cnt hdr st r_cnt = Some (ret, st1)" and c: "c \<noteq> 0"
  shows "((hdr, freq, mdiv, st2, (if over then 0 else (ucast ret :: u16)),
            (if over then c + 1 else c)),
          (hdr', freq', mdiv', st, r_cnt, c))
         \<in> measures [\<lambda>(hdr, freq, mdiv, st, r_cnt, c :: u32). if c = 0 then 0 else 2 ^ 32 - unat c,
                      \<lambda>(hdr, freq, mdiv, st, r_cnt :: u16, c). 65536 - unat r_cnt]"
proof (cases over)
  case True
  have lt: "unat c < 2 ^ 32" using unsigned_less [of c] by simp
  show ?thesis
  proof (cases "c + 1 = 0")
    case True
    with \<open>over\<close> c lt show ?thesis by simp
  next
    case False
    then have "unat (c + 1) = Suc (unat c)"
      using unatSuc [of c] by (simp add: add.commute)
    with \<open>over\<close> c lt False show ?thesis by simp arith
  qed
next
  case False
  from tune_r_cnt_grows [OF tune] obtain r :: u16 where r: "ret = ucast r" "unat r_cnt < unat r"
    by blast
  have "unat r < 65536" using unsigned_less [of r] by simp
  with r False c show ?thesis by (simp add: ucast_up_ucast_id is_up)
qed

text \<open>
  The three nested \<open>do ... while\<close> loops share one body start (the call of
  \<open>adf4350_tune_r_cnt\<close>), so the model is one recursive function: each \<open>while\<close> condition
  that holds re-enters it. The result is the state with \<open>r_cnt\<close> and \<open>chspc\<close>.
\<close>

function set_freq_search ::
  "adf4350_hdr \<Rightarrow> u64 \<Rightarrow> u16 \<Rightarrow> adf4350_state \<Rightarrow> u16 \<Rightarrow> u32 \<Rightarrow>
     (adf4350_state \<times> u16 \<times> u32) option" where
  "set_freq_search hdr freq mdiv st r_cnt chspc_v =
     (case adf4350_tune_r_cnt hdr st r_cnt of
        None \<Rightarrow> None
      | Some (ret, st1) \<Rightarrow>
          if chspc_v = 0 then None
          else
            let r_cnt1 = (ucast ret :: u16);
                st2 = st1\<lparr>r1_mod := fpfd st1 div chspc_v\<rparr>;
                over = (r_cnt1 > MAX_R_CNT hdr);
                chspc1 = (if over then chspc_v + 1 else chspc_v);
                r_cnt2 = (if over then 0 else r_cnt1)
            in if r1_mod st2 > MAX_MODULUS hdr \<and> r_cnt2 \<noteq> 0
               then set_freq_search hdr freq mdiv st2 r_cnt2 chspc1
               else if r_cnt2 = 0
               then set_freq_search hdr freq mdiv st2 r_cnt2 chspc1
               else
                 (case div_ratio freq (r1_mod st2) (fpfd st2) of
                    None \<Rightarrow> None
                  | Some tmp \<Rightarrow>
                      if r1_mod st2 = 0 then None
                      else
                        let st3 = st2\<lparr>r0_fract := ucast (tmp mod ucast (r1_mod st2))\<rparr>;
                            tmp' = tmp div ucast (r1_mod st3);
                            st4 = st3\<lparr>r0_int := ucast tmp'\<rparr>
                        in if ucast mdiv > r0_int st4
                           then set_freq_search hdr freq mdiv st4 r_cnt2 chspc1
                           else Some (st4, r_cnt2, chspc1)))"
  by pat_completeness auto
termination set_freq_search
proof (relation "measures [\<lambda>(hdr, freq, mdiv, st, r_cnt, c). if c = 0 then 0 else 2 ^ 32 - unat c,
                           \<lambda>(hdr, freq, mdiv, st, r_cnt, c). 65536 - unat r_cnt]", goal_cases)
  case 1
  show ?case by simp
next
  case (2 hdr freq mdiv st r_cnt c x2 ret st1 r_cnt1 st2 over chspc1 r_cnt2)
  from 2(1,2) have "adf4350_tune_r_cnt hdr st r_cnt = Some (ret, st1)" by simp
  from search_decreases [OF this 2(3), where over = "MAX_R_CNT hdr < ucast ret"]
  show ?case unfolding 2(4-8) by simp
next
  case (3 hdr freq mdiv st r_cnt c x2 ret st1 r_cnt1 st2 over chspc1 r_cnt2)
  from 3(1,2) have "adf4350_tune_r_cnt hdr st r_cnt = Some (ret, st1)" by simp
  from search_decreases [OF this 3(3), where over = "MAX_R_CNT hdr < ucast ret"]
  show ?case unfolding 3(4-8) by simp
next
  case (4 hdr freq mdiv st r_cnt c x2 ret st1 r_cnt1 st2 over chspc1 r_cnt2 tmp st3 tmp' st4)
  from 4(1,2) have "adf4350_tune_r_cnt hdr st r_cnt = Some (ret, st1)" by simp
  from search_decreases [OF this 4(3), where over = "MAX_R_CNT hdr < ucast ret"]
  show ?case unfolding 4(4-8) by simp
qed

declare set_freq_search.simps [simp del]

text \<open>
  The band select clock divider, a \<open>uint8_t\<close>: the 32-bit value of the conditional
  expression is truncated to its low 8 bits by the assignment.
\<close>

definition band_sel_div :: "adf4350_hdr \<Rightarrow> u32 \<Rightarrow> u8 option" where
  "band_sel_div hdr pfd =
     (if MAX_BANDSEL_CLK hdr = 0 then None
      else Some (ucast (if pfd mod MAX_BANDSEL_CLK hdr > MAX_BANDSEL_CLK hdr div 2
                        then pfd div MAX_BANDSEL_CLK hdr + 1
                        else pfd div MAX_BANDSEL_CLK hdr)))"

text \<open>The reduction of \<open>r0_fract / r1_mod\<close> to lowest terms, the only call of \<open>gcd\<close>.\<close>

definition reduce_fraction :: "adf4350_state \<Rightarrow> c_undefined + adf4350_state" where
  "reduce_fraction st =
     (if r0_fract st \<noteq> 0 \<and> r1_mod st \<noteq> 0 then
        (case gcd_adf4350 (r1_mod st) (r0_fract st) of
           Inl e \<Rightarrow> Inl e
         | Inr div_gcd \<Rightarrow>
             if div_gcd = 0 then Inl Div_By_Zero
             else Inr (st\<lparr>r1_mod := r1_mod st div div_gcd,
                          r0_fract := r0_fract st div div_gcd\<rparr>))
      else Inr (st\<lparr>r0_fract := 0, r1_mod := 1\<rparr>))"

text \<open>The six assignments to \<open>st->regs[]\<close>.\<close>

definition set_regs :: "adf4350_hdr \<Rightarrow> u32 \<Rightarrow> u16 \<Rightarrow> u8 \<Rightarrow> adf4350_state \<Rightarrow> adf4350_state" where
  "set_regs hdr prescaler r_cnt bsd st =
     (let pd = pdata st;
          reg0 = REG0_INT hdr (r0_int st) OR REG0_FRACT hdr (r0_fract st);
          reg1 = REG1_PHASE hdr 1 OR REG1_MOD hdr (r1_mod st) OR prescaler;
          reg2 = REG2_10BIT_R_CNT hdr (ucast r_cnt) OR
                 REG2_DOUBLE_BUFF_EN hdr OR
                 (if ref_doubler_en pd then REG2_RMULT2_EN hdr else 0) OR
                 (if ref_div2_en pd then REG2_RDIV2_EN hdr else 0) OR
                 (r2_user_settings pd AND
                    (REG2_PD_POLARITY_POS hdr OR REG2_LDP_6ns hdr OR REG2_LDF_INT_N hdr OR
                     REG2_CHARGE_PUMP_CURR_uA hdr 5000 OR
                     REG2_MUXOUT hdr 0x7 OR REG2_NOISE_MODE hdr 0x9));
          reg3 = r3_user_settings pd AND
                   (REG3_12BIT_CLKDIV hdr 0xFFF OR REG3_12BIT_CLKDIV_MODE hdr 0x3 OR
                    REG3_12BIT_CSR_EN hdr);
          reg4 = REG4_FEEDBACK_FUND hdr OR
                 REG4_RF_DIV_SEL hdr (r4_rf_div_sel st) OR
                 REG4_8BIT_BAND_SEL_CLKDIV hdr (ucast bsd) OR
                 REG4_RF_OUT_EN hdr OR
                 (r4_user_settings pd AND
                    (REG4_OUTPUT_PWR hdr 0x3 OR REG4_AUX_OUTPUT_PWR hdr 0x3 OR
                     REG4_AUX_OUTPUT_EN hdr OR REG4_AUX_OUTPUT_FUND hdr OR
                     REG4_MUTE_TILL_LOCK_EN hdr));
          reg5 = REG5_LD_PIN_MODE_DIGITAL hdr OR 0x00180000
      in st\<lparr>regs := (regs st)[0 := reg0, 1 := reg1, 2 := reg2, 3 := reg3, 4 := reg4, 5 := reg5]\<rparr>)"

text \<open>
  The value returned on success. The sum \<open>(st->r0_int * st->r1_mod) + st->r0_fract\<close> is
  computed on \<open>uint32_t\<close> operands and only its result is converted to \<open>uint64_t\<close>. A
  shift \<open>(uint64_t)1 << st->r4_rf_div_sel\<close> by 64 or more has no defined result.
\<close>

definition achieved_freq :: "adf4350_state \<Rightarrow> u64 option" where
  "achieved_freq st =
     (if 64 \<le> unat (r4_rf_div_sel st) then None
      else
        let tmp = (ucast (r0_int st * r1_mod st + r0_fract st) :: u64) * ucast (fpfd st);
            d = (ucast (r1_mod st) :: u64) * push_bit (unat (r4_rf_div_sel st)) 1
        in if d = 0 then None else Some (tmp div d))"

text \<open>
  \<open>adf4350_set_freq\<close>: the value returned (an \<open>int64_t\<close>), the state and the bus; \<open>None\<close>
  where the C function has no defined result or does not return.
\<close>

definition adf4350_set_freq ::
  "adf4350_hdr \<Rightarrow> spi_dev \<Rightarrow> adf4350_state \<Rightarrow> spi_bus \<Rightarrow> u64 \<Rightarrow>
     (s64 \<times> adf4350_state \<times> spi_bus) option" where
  "adf4350_set_freq hdr spi st bus freq =
     (if freq > MAX_OUT_FREQ hdr \<or> freq < MIN_OUT_FREQ hdr then Some (- 1, st, bus)
      else
        let prescaler = (if freq > MAX_FREQ_45_PRESC hdr then REG1_PRESCALER hdr else 0);
            mdiv = (if freq > MAX_FREQ_45_PRESC hdr then 75 else 23 :: u16)
        in case rf_div_loop hdr freq (st\<lparr>r4_rf_div_sel := 0\<rparr>) of
             None \<Rightarrow> None
           | Some (freq', st1) \<Rightarrow>
               let r_cnt = (if ref_div_factor (pdata st1) \<noteq> 0
                            then ref_div_factor (pdata st1) - 1 else 0)
               in case set_freq_search hdr freq' mdiv st1 r_cnt (chspc st1) of
                    None \<Rightarrow> None
                  | Some (st2, r_cnt', chspc') \<Rightarrow>
                      (case band_sel_div hdr (fpfd st2) of
                         None \<Rightarrow> None
                       | Some bsd \<Rightarrow>
                           (case reduce_fraction st2 of
                              Inl e \<Rightarrow> None
                            | Inr st3 \<Rightarrow>
                                let st4 = set_regs hdr prescaler r_cnt' bsd st3;
                                    (ret, st5, bus') = adf4350_sync_config spi st4 bus
                                in if sint ret < 0 then Some (scast ret, st5, bus')
                                   else (case achieved_freq st5 of
                                           None \<Rightarrow> None
                                         | Some tmp \<Rightarrow> Some (tmp, st5, bus')))))"

subsection \<open>An example configuration\<close>

text \<open>
  Concrete values for evaluating the model. \<open>adf4350_h\<close> gives the header's parameters
  the values of the ADF4350 register map and data sheet limits (output 34.375 MHz to
  4.4 GHz, VCO from 2.2 GHz, 4/5 prescaler up to 3 GHz, PFD up to 32 MHz, band select
  clock 125 kHz, 12-bit modulus, 10-bit R counter); no theorem stated for an arbitrary
  \<open>hdr\<close> depends on them. \<open>state_25MHz\<close> is the zero-initialised static state after the
  reference input has been set to 25 MHz and the channel spacing to 10 kHz; \<open>spi_ok\<close> is
  a transport on which every transfer succeeds.
\<close>

definition adf4350_h :: adf4350_hdr where
  "adf4350_h =
     \<lparr>MAX_OUT_FREQ = 4400000000, MIN_OUT_FREQ = 34375000, MIN_VCO_FREQ = 2200000000,
      MAX_FREQ_45_PRESC = 3000000000, MAX_FREQ_PFD = 32000000, MAX_BANDSEL_CLK = 125000,
      MAX_MODULUS = 4095, MAX_R_CNT = 1023,
      REG0_FRACT = (\<lambda>x. push_bit 3 (x AND 0xFFF)),
      REG0_INT = (\<lambda>x. push_bit 15 (x AND 0xFFFF)),
      REG1_MOD = (\<lambda>x. push_bit 3 (x AND 0xFFF)),
      REG1_PHASE = (\<lambda>x. push_bit 15 (x AND 0xFFF)),
      REG1_PRESCALER = push_bit 27 1,
      REG2_PD_POLARITY_POS = push_bit 6 1,
      REG2_LDP_6ns = push_bit 7 1,
      REG2_LDF_INT_N = push_bit 8 1,
      REG2_CHARGE_PUMP_CURR_uA = (\<lambda>x. push_bit 9 (((x - 312) div 312) AND 0xF)),
      REG2_DOUBLE_BUFF_EN = push_bit 13 1,
      REG2_10BIT_R_CNT = push_bit 14,
      REG2_RDIV2_EN = push_bit 24 1,
      REG2_RMULT2_EN = push_bit 25 1,
      REG2_MUXOUT = push_bit 26,
      REG2_NOISE_MODE = push_bit 29,
      REG3_12BIT_CLKDIV = push_bit 3,
      REG3_12BIT_CLKDIV_MODE = push_bit 16,
      REG3_12BIT_CSR_EN = push_bit 18 1,
      REG4_OUTPUT_PWR = push_bit 3,
      REG4_RF_OUT_EN = push_bit 5 1,
      REG4_AUX_OUTPUT_PWR = push_bit 6,
      REG4_AUX_OUTPUT_EN = push_bit 8 1,
      REG4_AUX_OUTPUT_FUND = push_bit 9 1,
      REG4_MUTE_TILL_LOCK_EN = push_bit 10 1,
      REG4_8BIT_BAND_SEL_CLKDIV = push_bit 12,
      REG4_RF_DIV_SEL = push_bit 20,
      REG4_FEEDBACK_FUND = push_bit 23 1,
      REG5_LD_PIN_MODE_DIGITAL = push_bit 22 1\<rparr>"

definition pdata_25MHz :: adf4350_platform_data where
  "pdata_25MHz =
     \<lparr>pd_clkin = 25000000, channel_spacing = 10000, power_up_frequency = 2400000000,
      ref_div_factor = 0, ref_doubler_en = False, ref_div2_en = False,
      r2_user_settings = 0, r3_user_settings = 0, r4_user_settings = 0\<rparr>"

definition state_25MHz :: adf4350_state where
  "state_25MHz =
     \<lparr>pdata = pdata_25MHz, clkin = 25000000, chspc = 10000, fpfd = 0, min_out_freq = 0,
      r0_fract = 0, r0_int = 0, r1_mod = 0, r4_rf_div_sel = 0,
      regs = [0, 0, 0, 0, 0, 0], regs_hw = [0, 0, 0, 0, 0, 0], val = 0\<rparr>"

definition spi_ok :: spi_dev where
  "spi_ok bus tx = 0"

text \<open>A state in which register 4, and no other register, differs from its shadow.\<close>

definition reg4_changed :: adf4350_state where
  "reg4_changed = state_25MHz\<lparr>regs := [8, 16, 24, 32, 40, 48], regs_hw := [8, 16, 24, 32, 0, 48]\<rparr>"

subsection \<open>Reference computations\<close>

text \<open>
  What the properties below compare the code with; none of these is part of the driver.
\<close>

text \<open>
  The indices that a run without a failed write transfers, in order, from index \<open>i\<close>
  down, for target \<open>t\<close> and shadow \<open>h\<close>.
\<close>

fun sync_writes :: "nat \<Rightarrow> bool \<Rightarrow> u32 list \<Rightarrow> u32 list \<Rightarrow> nat list" where
  "sync_writes 0 db t h = (if h ! 0 \<noteq> t ! 0 \<or> db then [0] else [])"
| "sync_writes (Suc i) db t h =
     (if h ! Suc i \<noteq> t ! Suc i
      then Suc i # sync_writes i (db \<or> Suc i = 1 \<or> Suc i = 4) t h
      else sync_writes i db t h)"

text \<open>
  The PFD frequency for a reference counter \<open>count\<close>, on natural numbers:
  \<open>clkin * (doubler ? 2 : 1) / (count * (div2 ? 2 : 1))\<close> with the product taken in 32-bit
  unsigned arithmetic (it is the plain product whenever that is below \<open>2 ^ 32\<close>).
\<close>

definition pfd_hz :: "adf4350_state \<Rightarrow> nat \<Rightarrow> nat" where
  "pfd_hz st count =
     (unat (clkin st) * (if ref_doubler_en (pdata st) then 2 else 1)) mod 2 ^ 32 div
     (count * (if ref_div2_en (pdata st) then 2 else 1))"

text \<open>
  \<open>pfd / maxb\<close> rounded to nearest with a remainder of exactly half rounded up.
\<close>

definition band_sel_half_up :: "nat \<Rightarrow> nat \<Rightarrow> nat" where
  "band_sel_half_up pfd maxb =
     (if maxb \<le> 2 * (pfd mod maxb) then pfd div maxb + 1 else pfd div maxb)"

text \<open>The rounding named by the source's comment, \<open>(n + d/2)/d\<close>, on unbounded integers.\<close>

definition div_round_closest :: "int \<Rightarrow> int \<Rightarrow> int" where
  "div_round_closest n d = (n + d div 2) div d"

text \<open>
  The achieved frequency \<open>((r0_int * r1_mod + r0_fract) * fpfd) / (r1_mod * 2 ^
  r4_rf_div_sel)\<close> on unbounded integers.
\<close>

definition achieved_exact :: "adf4350_state \<Rightarrow> int" where
  "achieved_exact st =
     ((uint (r0_int st) * uint (r1_mod st) + uint (r0_fract st)) * uint (fpfd st)) div
     (uint (r1_mod st) * 2 ^ unat (r4_rf_div_sel st))"

text \<open>
  The state and the bus after \<open>adf4350_set_freq\<close> for 35 MHz in the example configuration
  (six divide-by-two stages, PFD 25 MHz, INT 89, FRAC/MOD 3/5).
\<close>

definition state_35MHz :: adf4350_state where
  "state_35MHz =
     state_25MHz\<lparr>fpfd := 25000000, r0_fract := 3, r0_int := 89, r1_mod := 5,
                  r4_rf_div_sel := 6,
                  regs := [2916376, 32808, 24576, 0, 15499296, 5767168],
                  regs_hw := [2916376, 32808, 24576, 0, 15499296, 5767168],
                  val := 2916376\<rparr>"

definition transfers_35MHz :: spi_bus where
  "transfers_35MHz =
     [[0, 88, 0, 5], [0, 236, 128, 36], [0, 0, 96, 2], [0, 0, 128, 41], [0, 44, 128, 24]]"

section \<open>Properties of adf4350_sync_config\<close>

lemma sync_writes_update: "i < k \<Longrightarrow> sync_writes i db t (h[k := v]) = sync_writes i db t h"
  by (induction i arbitrary: db) auto

lemma sync_reg_regs: "sync_reg spi i db st bus = (r, db', st', bus') \<Longrightarrow> regs st' = regs st"
  by (auto simp: sync_reg_def adf4350_write_def Let_def split: if_splits)

lemma sync_loop_success:
  "sync_loop spi i db st bus = (ret, st', bus') \<Longrightarrow> 0 \<le> sint ret \<Longrightarrow>
     ret = 0 \<and> regs st' = regs st \<and>
     bus' = bus @ map (\<lambda>j. txData (regs st ! j OR of_nat j))
                      (sync_writes i db (regs st) (regs_hw st)) \<and>
     length (regs_hw st') = length (regs_hw st) \<and>
     (\<forall>j\<le>i. j < length (regs_hw st) \<longrightarrow> regs_hw st' ! j = regs st ! j) \<and>
     (\<forall>j>i. regs_hw st' ! j = regs_hw st ! j)"
proof (induction i arbitrary: db st bus)
  case 0
  then show ?case
    by (auto simp: sync_reg_def adf4350_write_def Let_def split: if_splits)
next
  case (Suc i)
  obtain r db1 st1 bus1 where step: "sync_reg spi (Suc i) db st bus = (r, db1, st1, bus1)"
    by (metis prod_cases4)
  show ?case
  proof (cases r)
    case (Some a)
    with step Suc.prems have "sint a < 0"
      by (auto simp: sync_reg_def adf4350_write_def Let_def split: if_splits)
    with step Some Suc.prems show ?thesis by simp
  next
    case None
    with step Suc.prems have loop: "sync_loop spi i db1 st1 bus1 = (ret, st', bus')" by simp
    note IH = Suc.IH [OF loop Suc.prems(2)]
    show ?thesis
    proof (cases "regs_hw st ! Suc i \<noteq> regs st ! Suc i")
      case True
      with step None have
        st1: "st1 = st\<lparr>val := regs st ! Suc i OR of_nat (Suc i),
                        regs_hw := (regs_hw st)[Suc i := regs st ! Suc i]\<rparr>"
        and bus1: "bus1 = bus @ [txData (regs st ! Suc i OR of_nat (Suc i))]"
        and db1: "db1 = (db \<or> Suc i = 1 \<or> Suc i = 4)"
        by (auto simp: sync_reg_def adf4350_write_def Let_def split: if_splits)
      from IH True show ?thesis
        unfolding st1 bus1 db1
        by (auto simp: sync_writes_update le_Suc_eq)
    next
      case False
      with step None have "st1 = st" "bus1 = bus" "db1 = db"
        by (auto simp: sync_reg_def adf4350_write_def Let_def split: if_splits)
      with IH False show ?thesis 
        by (auto simp: le_Suc_eq)
    qed
  qed
qed

lemma sync_loop_clean:
  "\<forall>j\<le>i. regs_hw st ! j = regs st ! j \<Longrightarrow> sync_loop spi i False st bus = (0, st, bus)"
  by (induction i) (auto simp: sync_reg_def)

lemma sync_writes_5:
  "h ! 1 \<noteq> t ! 1 \<or> h ! 4 \<noteq> t ! 4 \<Longrightarrow>
   sync_writes 5 False t h = filter (\<lambda>j. h ! j \<noteq> t ! j) [5, 4, 3, 2, 1] @ [0]"
  by (auto simp: eval_nat_numeral)

text \<open>A run changes no field of the state but \<open>regs_hw\<close> and \<open>val\<close>.\<close>

lemma sync_loop_fields:
  "sync_loop spi i db st bus = (ret, st', bus') \<Longrightarrow>
     st' = st\<lparr>regs_hw := regs_hw st', val := val st'\<rparr>"
proof (induction i arbitrary: db st bus)
  case 0
  then show ?case
    by (auto simp: sync_reg_def adf4350_write_def Let_def split: if_splits)
next
  case (Suc i)
  obtain r db1 st1 bus1 where step: "sync_reg spi (Suc i) db st bus = (r, db1, st1, bus1)"
    by (metis prod_cases4)
  then have st1: "st1 = st\<lparr>regs_hw := regs_hw st1, val := val st1\<rparr>"
    by (auto simp: sync_reg_def adf4350_write_def Let_def split: if_splits)
  show ?case
  proof (cases r)
    case (Some a)
    with step Suc.prems st1 show ?thesis by simp
  next
    case None
    with step Suc.prems have "sync_loop spi i db1 st1 bus1 = (ret, st', bus')" by simp
    from Suc.IH [OF this] have "st' = st1\<lparr>regs_hw := regs_hw st', val := val st'\<rparr>" .
    then have "st' = (st\<lparr>regs_hw := regs_hw st1, val := val st1\<rparr>)\<lparr>regs_hw := regs_hw st', val := val st'\<rparr>"
      using st1 by simp
    then show ?thesis by simp
  qed
qed

text \<open>
  C1. When register 1 or register 4 differs from its shadow value, a successful run of
  \<open>adf4350_sync_config\<close> transfers register 0 as its last word, whether or not register 0
  itself differs: the transfers are those of the differing registers among 5 .. 1, highest
  first, followed by the word of register 0.
\<close>

theorem sync_config_latches_reg0:
  assumes "regs_hw st ! 1 \<noteq> regs st ! 1 \<or> regs_hw st ! 4 \<noteq> regs st ! 4"
    and "adf4350_sync_config spi st bus = (ret, st', bus')"
    and "0 \<le> sint ret"
  shows "bus' = bus @ map (\<lambda>j. txData (regs st ! j OR of_nat j))
                         (filter (\<lambda>j. regs_hw st ! j \<noteq> regs st ! j) [5, 4, 3, 2, 1])
                    @ [txData (regs st ! 0 OR 0)]"
proof -
  from assms(2) have "sync_loop spi 5 False st bus = (ret, st', bus')"
    by (simp add: adf4350_sync_config_def)
  from sync_loop_success [OF this assms(3)] sync_writes_5 [OF assms(1)]
  show ?thesis by simp
qed

theorem sync_config_latches_reg0_witness:
  "regs_hw reg4_changed ! 4 \<noteq> regs reg4_changed ! 4 \<and>
   regs_hw reg4_changed ! 0 = regs reg4_changed ! 0 \<and>
   0 \<le> sint (fst (adf4350_sync_config spi_ok reg4_changed [])) \<and>
   snd (snd (adf4350_sync_config spi_ok reg4_changed [])) = [txData 44, txData 8]"
proof -
  let ?r = "adf4350_sync_config spi_ok reg4_changed []"
  have d: "regs_hw reg4_changed ! 1 \<noteq> regs reg4_changed ! 1 \<or>
           regs_hw reg4_changed ! 4 \<noteq> regs reg4_changed ! 4"
    by (simp add: reg4_changed_def)
  have ok: "0 \<le> sint (fst ?r)"
    by code_simp
  have "?r = (fst ?r, fst (snd ?r), snd (snd ?r))" by simp
  from sync_config_latches_reg0 [OF d this ok] d ok show ?thesis
    by (simp add: reg4_changed_def)
qed

text \<open>
  C9. After a successful run of \<open>adf4350_sync_config\<close> a second run on the resulting state
  (same target registers), over any transport, returns 0 and leaves state and bus as they
  are: it makes no transfer.
\<close>

theorem sync_config_idempotent:
  assumes "wf_state st"
    and "adf4350_sync_config spi st bus = (ret, st', bus')"
    and "0 \<le> sint ret"
  shows "adf4350_sync_config spi2 st' bus' = (0, st', bus')"
proof -
  from assms(2) have "sync_loop spi 5 False st bus = (ret, st', bus')"
    by (simp add: adf4350_sync_config_def)
  from sync_loop_success [OF this assms(3)] assms(1)
  have "\<forall>j\<le>5. regs_hw st' ! j = regs st' ! j" by (simp add: wf_state_def)
  then show ?thesis
    unfolding adf4350_sync_config_def by (rule sync_loop_clean)
qed

theorem sync_config_idempotent_witness:
  "wf_state reg4_changed \<and>
   0 \<le> sint (fst (adf4350_sync_config spi_ok reg4_changed [])) \<and>
   snd (snd (adf4350_sync_config spi_ok reg4_changed [])) = [txData 44, txData 8] \<and>
   snd (snd (adf4350_sync_config spi_ok
               (fst (snd (adf4350_sync_config spi_ok reg4_changed [])))
               (snd (snd (adf4350_sync_config spi_ok reg4_changed []))))) = [txData 44, txData 8]"
proof -
  let ?r = "adf4350_sync_config spi_ok reg4_changed []"
  have l: "wf_state reg4_changed" by (simp add: wf_state_def reg4_changed_def state_25MHz_def)
  have ev: "fst ?r = 0 \<and> snd (snd ?r) = [txData 44, txData 8]"
    by code_simp
  then have ok: "0 \<le> sint (fst ?r)" by simp
  have "?r = (fst ?r, fst (snd ?r), snd (snd ?r))" by simp
  from sync_config_idempotent [OF l this ok, of spi_ok] l ok ev show ?thesis
    by simp
qed

section \<open>Properties of gcd and of the reduction\<close>

text \<open>
  The search of \<open>gcd\<close> starts at or above the greatest common divisor and stops at the
  first common divisor on its way down: what it returns is the greatest common divisor.
\<close>

lemma gcd_loop_result:
  "x \<noteq> 0 \<Longrightarrow> y \<noteq> 0 \<Longrightarrow> gcd (unat x) (unat y) \<le> unat tmp \<Longrightarrow> gcd_loop x y tmp = Inr r \<Longrightarrow>
     unat r = gcd (unat x) (unat y)"
proof (induction x y tmp rule: gcd_loop.induct)
  case (1 x y tmp)
  let ?g = "gcd (unat x) (unat y)"
  from "1.prems" have "0 < unat x" by (simp add: unat_gt_0)
  then have gpos: "0 < ?g" by simp
  with "1.prems"(3) have "0 < unat tmp" by linarith
  then have tnz: "tmp \<noteq> 0" by (simp add: unat_gt_0)
  note run = "1.prems"(4) [unfolded gcd_loop.simps [of x y tmp]]
  show ?case
  proof (cases "x mod tmp \<noteq> 0 \<or> y mod tmp \<noteq> 0")
    case True
    have "unat tmp \<noteq> ?g"
    proof
      assume e: "unat tmp = ?g"
      then have "unat x mod unat tmp = 0" "unat y mod unat tmp = 0" by simp_all
      then have "unat (x mod tmp) = 0" "unat (y mod tmp) = 0" by (simp_all add: unat_mod)
      then have "x mod tmp = 0" "y mod tmp = 0" by (simp_all add: unat_eq_0)
      with True show False by simp
    qed
    with "1.prems" tnz have le: "?g \<le> unat (tmp - 1)" by (simp add: unat_minus_one)
    from run tnz True have nmin: "tmp \<noteq> 0x80000000" by (auto split: if_splits)
    with run tnz True have "gcd_loop x y (tmp - 1) = Inr r" by simp
    from "1.IH" [OF tnz True nmin "1.prems"(1,2) le this] show ?thesis .
  next
    case False
    then have "unat (x mod tmp) = 0" "unat (y mod tmp) = 0" by simp_all
    then have "unat tmp dvd unat x" "unat tmp dvd unat y"
      by (simp_all add: unat_mod dvd_eq_mod_eq_0)
    then have "unat tmp dvd ?g" by simp
    with gpos have "unat tmp \<le> ?g" by (simp add: dvd_imp_le)
    with "1.prems" have "unat tmp = ?g" by simp
    moreover from run tnz False have "r = tmp" by simp
    ultimately show ?thesis by simp
  qed
qed

text \<open>From a start below \<open>2 ^ 31\<close> the search returns: \<open>tmp\<close> stays positive down to 1.\<close>

lemma gcd_loop_returns:
  "x \<noteq> 0 \<Longrightarrow> y \<noteq> 0 \<Longrightarrow> gcd (unat x) (unat y) \<le> unat tmp \<Longrightarrow> unat tmp < 2 ^ 31 \<Longrightarrow>
     \<exists>r. gcd_loop x y tmp = Inr r"
proof (induction x y tmp rule: gcd_loop.induct)
  case (1 x y tmp)
  let ?g = "gcd (unat x) (unat y)"
  from "1.prems" have "0 < unat x" by (simp add: unat_gt_0)
  then have gpos: "0 < ?g" by simp
  with "1.prems"(3) have "0 < unat tmp" by linarith
  then have tnz: "tmp \<noteq> 0" by (simp add: unat_gt_0)
  show ?case
  proof (cases "x mod tmp \<noteq> 0 \<or> y mod tmp \<noteq> 0")
    case True
    have "unat tmp \<noteq> ?g"
    proof
      assume e: "unat tmp = ?g"
      then have "unat x mod unat tmp = 0" "unat y mod unat tmp = 0" by simp_all
      then have "unat (x mod tmp) = 0" "unat (y mod tmp) = 0" by (simp_all add: unat_mod)
      then have "x mod tmp = 0" "y mod tmp = 0" by (simp_all add: unat_eq_0)
      with True show False by simp
    qed
    with "1.prems" tnz have le: "?g \<le> unat (tmp - 1)" by (simp add: unat_minus_one)
    from "1.prems"(4) have nmin: "tmp \<noteq> 0x80000000" by auto
    from "1.prems"(4) tnz have lt: "unat (tmp - 1) < 2 ^ 31" by (simp add: unat_minus_one)
    from "1.IH" [OF tnz True nmin "1.prems"(1,2) le lt] obtain r
      where "gcd_loop x y (tmp - 1) = Inr r" by blast
    with tnz True nmin show ?thesis by (subst gcd_loop.simps) simp
  next
    case False
    with tnz show ?thesis by (subst gcd_loop.simps) simp
  qed
qed

text \<open>
  From a start of \<open>2 ^ 31\<close> or more that is at most both arguments, two different
  arguments have no common divisor before \<open>tmp\<close> reaches \<open>INT32_MIN\<close>.
\<close>

lemma dvd_below_twice:
  fixes t x :: nat
  assumes "t dvd x" "0 < x" "x < 2 * t"
  shows "x = t"
proof -
  from assms(1) obtain k where k: "x = t * k" by (rule dvdE)
  with assms(2) have "0 < t * k" by simp
  then have "0 < k" "0 < t" by simp_all
  from k assms(3) \<open>0 < t\<close> have "k < 2" by simp
  with \<open>0 < k\<close> have "k = 1" by simp
  with k show ?thesis by simp
qed

lemma gcd_loop_overflow:
  "2 ^ 31 \<le> unat tmp \<Longrightarrow> unat tmp \<le> unat x \<Longrightarrow> unat tmp \<le> unat y \<Longrightarrow> x \<noteq> y \<Longrightarrow>
     gcd_loop x y tmp = Inl Signed_Overflow"
proof (induction x y tmp rule: gcd_loop.induct)
  case (1 x y tmp)
  from "1.prems"(1) have tpos: "0 < unat tmp" by simp
  then have tnz: "tmp \<noteq> 0" by (simp add: unat_gt_0)
  have "unat x < 2 ^ 32" "unat y < 2 ^ 32"
    using unsigned_less [of x] unsigned_less [of y] by simp_all
  with "1.prems"(1) have xlt: "unat x < 2 * unat tmp" "unat y < 2 * unat tmp"
    by simp_all
  have cond: "x mod tmp \<noteq> 0 \<or> y mod tmp \<noteq> 0"
  proof (rule ccontr)
    assume "\<not> (x mod tmp \<noteq> 0 \<or> y mod tmp \<noteq> 0)"
    then have "unat (x mod tmp) = 0" "unat (y mod tmp) = 0" by simp_all
    then have "unat tmp dvd unat x" "unat tmp dvd unat y"
      by (simp_all add: unat_mod dvd_eq_mod_eq_0)
    moreover from tpos "1.prems"(2,3) have "0 < unat x" "0 < unat y" by simp_all
    ultimately have "unat x = unat tmp" "unat y = unat tmp"
      using xlt by (simp_all add: dvd_below_twice)
    then have "x = y" by (simp add: word_unat_eq_iff)
    with "1.prems"(4) show False by simp
  qed
  show ?case
  proof (cases "tmp = 0x80000000")
    case True
    with tnz cond show ?thesis by (subst gcd_loop.simps) simp
  next
    case False
    then have "unat tmp \<noteq> unat (0x80000000 :: u32)" by (simp only: word_unat_eq_iff [symmetric]) simp
    with "1.prems"(1) have "2 ^ 31 < unat tmp" by simp
    with tnz have ge: "2 ^ 31 \<le> unat (tmp - 1)" by (simp add: unat_minus_one)
    from tnz "1.prems"(2,3) have le: "unat (tmp - 1) \<le> unat x" "unat (tmp - 1) \<le> unat y"
      by (simp_all add: unat_minus_one)
    from "1.IH" [OF tnz cond False ge le "1.prems"(4)] tnz cond False
    show ?thesis by (subst gcd_loop.simps) simp
  qed
qed

lemma unat_smaller: "unat (if y > x then x else y) = min (unat x) (unat y)"
  for x y :: u32
  by (auto simp: word_less_nat_alt min_def)

lemma gcd_adf4350_zero: "x = 0 \<or> y = 0 \<Longrightarrow> gcd_adf4350 x y = Inl Div_By_Zero"
  by (auto simp: gcd_adf4350_def gcd_loop.simps [where tmp = 0] word_gt_0)

lemma gcd_adf4350_sound:
  assumes "gcd_adf4350 x y = Inr g"
  shows "x \<noteq> 0 \<and> y \<noteq> 0 \<and> g \<noteq> 0 \<and> unat g = gcd (unat x) (unat y)"
proof -
  from assms gcd_adf4350_zero [of x y] have nz: "x \<noteq> 0" "y \<noteq> 0" by auto
  then have pos: "0 < unat x" "0 < unat y" by (simp_all add: unat_gt_0)
  then have "gcd (unat x) (unat y) \<le> unat x" "gcd (unat x) (unat y) \<le> unat y"
    by (simp_all add: dvd_imp_le)
  then have "gcd (unat x) (unat y) \<le> unat (if y > x then x else y)"
    by (simp add: unat_smaller)
  from gcd_loop_result [OF nz this] assms have g: "unat g = gcd (unat x) (unat y)"
    by (simp add: gcd_adf4350_def)
  with pos have "0 < unat g" by simp
  then have "g \<noteq> 0" by (simp add: unat_gt_0)
  with nz g show ?thesis by simp
qed

lemma gcd_adf4350_correct:
  assumes "x \<noteq> 0" "y \<noteq> 0" and dom: "unat x < 2 ^ 31 \<or> unat y < 2 ^ 31 \<or> x = y"
  shows "\<exists>g. gcd_adf4350 x y = Inr g \<and> g \<noteq> 0 \<and> unat g = gcd (unat x) (unat y)"
proof -
  have "\<exists>g. gcd_adf4350 x y = Inr g"
  proof (cases "x = y")
    case True
    with assms(1) show ?thesis
      by (simp add: gcd_adf4350_def gcd_loop.simps [of y y y])
  next
    case False
    with dom have small: "unat (if y > x then x else y) < 2 ^ 31"
      by (auto simp: unat_smaller)
    from assms have pos: "0 < unat x" "0 < unat y" by (simp_all add: unat_gt_0)
    then have "gcd (unat x) (unat y) \<le> unat x" "gcd (unat x) (unat y) \<le> unat y"
      by (simp_all add: dvd_imp_le)
    then have "gcd (unat x) (unat y) \<le> unat (if y > x then x else y)"
      by (simp add: unat_smaller)
    from gcd_loop_returns [OF assms(1,2) this small] show ?thesis
      by (simp add: gcd_adf4350_def)
  qed
  then obtain g where "gcd_adf4350 x y = Inr g" by blast
  with gcd_adf4350_sound [OF this] show ?thesis by simp
qed

lemma gcd_adf4350_overflow:
  assumes "2 ^ 31 \<le> unat x" "2 ^ 31 \<le> unat y" "x \<noteq> y"
  shows "gcd_adf4350 x y = Inl Signed_Overflow"
proof -
  let ?t = "if y > x then x else y"
  from assms(1,2) have "2 ^ 31 \<le> unat ?t" "unat ?t \<le> unat x" "unat ?t \<le> unat y"
    by (simp_all add: unat_smaller)
  from gcd_loop_overflow [OF this assms(3)] show ?thesis by (simp add: gcd_adf4350_def)
qed

lemma reduce_fraction_Inr:
  assumes "reduce_fraction st = Inr st'" and "r0_fract st \<noteq> 0 \<and> r1_mod st \<noteq> 0"
  shows "\<exists>g. g \<noteq> 0 \<and> unat g = gcd (unat (r1_mod st)) (unat (r0_fract st)) \<and>
           st' = st\<lparr>r1_mod := r1_mod st div g, r0_fract := r0_fract st div g\<rparr>"
proof -
  from assms obtain g where g: "gcd_adf4350 (r1_mod st) (r0_fract st) = Inr g"
    by (auto simp: reduce_fraction_def split: sum.splits)
  from gcd_adf4350_sound [OF g] have "g \<noteq> 0"
    "unat g = gcd (unat (r1_mod st)) (unat (r0_fract st))" by simp_all
  with assms g show ?thesis by (intro exI [of _ g]) (simp add: reduce_fraction_def)
qed

lemma reduce_fraction_reduces:
  assumes "r0_fract st \<noteq> 0" "r1_mod st \<noteq> 0"
    and "unat (r0_fract st) < 2 ^ 31 \<or> unat (r1_mod st) < 2 ^ 31 \<or> r0_fract st = r1_mod st"
  shows "\<exists>g. g \<noteq> 0 \<and> unat g = gcd (unat (r1_mod st)) (unat (r0_fract st)) \<and>
           reduce_fraction st =
             Inr (st\<lparr>r1_mod := r1_mod st div g, r0_fract := r0_fract st div g\<rparr>)"
proof -
  from assms(3) have "unat (r1_mod st) < 2 ^ 31 \<or> unat (r0_fract st) < 2 ^ 31 \<or>
      r1_mod st = r0_fract st" by auto
  from gcd_adf4350_correct [OF assms(2) assms(1) this] obtain g
    where g: "gcd_adf4350 (r1_mod st) (r0_fract st) = Inr g" "g \<noteq> 0"
      "unat g = gcd (unat (r1_mod st)) (unat (r0_fract st))" by blast
  with assms show ?thesis by (intro exI [of _ g]) (simp add: reduce_fraction_def)
qed

text \<open>
  C5. For non-zero \<open>r0_fract\<close> and \<open>r1_mod\<close> of which one is below \<open>2 ^ 31\<close>, or which are
  equal, the reduction returns the state with the two fields replaced by a coprime pair of
  the same ratio; \<open>gcd\<close> returns the greatest common divisor of two such arguments; for a
  zero \<open>r0_fract\<close> the result is the pair (0, 1) whatever \<open>r1_mod\<close> was.
\<close>

theorem rational_reducer:
  "(r0_fract st \<noteq> 0 \<and> r1_mod st \<noteq> 0 \<and>
    (unat (r0_fract st) < 2 ^ 31 \<or> unat (r1_mod st) < 2 ^ 31 \<or> r0_fract st = r1_mod st) \<longrightarrow>
      (\<exists>a b. reduce_fraction st = Inr (st\<lparr>r1_mod := b, r0_fract := a\<rparr>) \<and>
         coprime (unat a) (unat b) \<and>
         unat a * unat (r1_mod st) = unat (r0_fract st) * unat b)) \<and>
   (x \<noteq> 0 \<and> y \<noteq> 0 \<and> (unat x < 2 ^ 31 \<or> unat y < 2 ^ 31 \<or> x = y) \<longrightarrow>
      (\<exists>g. gcd_adf4350 x y = Inr g \<and> unat g = gcd (unat x) (unat y))) \<and>
   (r0_fract st0 = 0 \<longrightarrow> reduce_fraction st0 = Inr (st0\<lparr>r0_fract := 0, r1_mod := 1\<rparr>))"
proof (intro conjI impI)
  assume nz: "r0_fract st \<noteq> 0 \<and> r1_mod st \<noteq> 0 \<and>
    (unat (r0_fract st) < 2 ^ 31 \<or> unat (r1_mod st) < 2 ^ 31 \<or> r0_fract st = r1_mod st)"
  let ?a = "unat (r0_fract st)" and ?b = "unat (r1_mod st)"
  from nz reduce_fraction_reduces [of st] obtain g
    where g: "g \<noteq> 0" "unat g = gcd ?b ?a"
      "reduce_fraction st = Inr (st\<lparr>r1_mod := r1_mod st div g, r0_fract := r0_fract st div g\<rparr>)"
    by blast
  from nz have "?a \<noteq> 0" by (simp add: unat_eq_0)
  then have cop: "coprime (?a div gcd ?b ?a) (?b div gcd ?b ?a)"
    using div_gcd_coprime [of ?a ?b] by (simp add: gcd.commute)
  have "(?a div gcd ?b ?a) * ?b = ?a * (?b div gcd ?b ?a)"
    by (simp add: div_mult_swap dvd_div_mult)
  with cop g show "\<exists>a b. reduce_fraction st = Inr (st\<lparr>r1_mod := b, r0_fract := a\<rparr>) \<and>
         coprime (unat a) (unat b) \<and> unat a * ?b = ?a * unat b"
    by (intro exI [of _ "r0_fract st div g"] exI [of _ "r1_mod st div g"])
      (simp add: unat_div)
next
  assume "x \<noteq> 0 \<and> y \<noteq> 0 \<and> (unat x < 2 ^ 31 \<or> unat y < 2 ^ 31 \<or> x = y)"
  then show "\<exists>g. gcd_adf4350 x y = Inr g \<and> unat g = gcd (unat x) (unat y)"
    using gcd_adf4350_correct [of x y] by blast
next
  assume "r0_fract st0 = 0"
  then show "reduce_fraction st0 = Inr (st0\<lparr>r0_fract := 0, r1_mod := 1\<rparr>)"
    by (simp add: reduce_fraction_def)
qed

theorem rational_reducer_witness:
  "r0_fract (state_25MHz\<lparr>r0_fract := 12, r1_mod := 18\<rparr>) \<noteq> 0 \<and>
   r1_mod (state_25MHz\<lparr>r0_fract := 12, r1_mod := 18\<rparr>) \<noteq> 0 \<and>
   unat (r0_fract (state_25MHz\<lparr>r0_fract := 12, r1_mod := 18\<rparr>)) < 2 ^ 31 \<and>
   reduce_fraction (state_25MHz\<lparr>r0_fract := 12, r1_mod := 18\<rparr>) =
     Inr (state_25MHz\<lparr>r0_fract := 2, r1_mod := 3\<rparr>) \<and>
   coprime (unat (2 :: u32)) (unat (3 :: u32)) \<and>
   gcd_adf4350 18 12 = Inr 6 \<and>
   reduce_fraction (state_25MHz\<lparr>r0_fract := 0, r1_mod := 18\<rparr>) =
     Inr (state_25MHz\<lparr>r0_fract := 0, r1_mod := 1\<rparr>)"
proof -
  let ?s = "state_25MHz\<lparr>r0_fract := 12, r1_mod := 18\<rparr>"
  let ?z = "state_25MHz\<lparr>r0_fract := 0, r1_mod := 18\<rparr>"
  have g: "gcd_adf4350 18 12 = Inr 6"
    by (simp add: gcd_adf4350_def gcd_loop.simps)
  have r: "reduce_fraction ?s = Inr (state_25MHz\<lparr>r0_fract := 2, r1_mod := 3\<rparr>)"
    by (simp add: reduce_fraction_def g state_25MHz_def)
  have h: "r0_fract ?s \<noteq> 0 \<and> r1_mod ?s \<noteq> 0 \<and>
    (unat (r0_fract ?s) < 2 ^ 31 \<or> unat (r1_mod ?s) < 2 ^ 31 \<or> r0_fract ?s = r1_mod ?s)"
    by simp
  have hz: "r0_fract ?z = 0" by simp
  from rational_reducer [of ?s 18 12 ?z] h hz obtain a b where
    ab: "reduce_fraction ?s = Inr (?s\<lparr>r1_mod := b, r0_fract := a\<rparr>)"
      "coprime (unat a) (unat b)"
    and z: "reduce_fraction ?z = Inr (?z\<lparr>r0_fract := 0, r1_mod := 1\<rparr>)"
    by blast
  from ab(1) r have eq: "state_25MHz\<lparr>r0_fract := 2, r1_mod := 3\<rparr> = ?s\<lparr>r1_mod := b, r0_fract := a\<rparr>"
    by simp
  from arg_cong [OF eq, of r0_fract] have a: "a = 2" by simp
  from arg_cong [OF eq, of r1_mod] have b: "b = 3" by simp
  from ab(2) g r z show ?thesis unfolding a b by simp
qed

text \<open>
  For two different arguments of \<open>2 ^ 31\<close> or more the search runs into the decrement at
  \<open>INT32_MIN\<close>: \<open>gcd\<close> and the reduction have no result, here for \<open>2 ^ 31\<close> and
  \<open>2 ^ 31 + 1\<close>.
\<close>

theorem rational_reducer_overflow_counterexample:
  "(0x80000000 :: u32) \<noteq> 0 \<and> (0x80000001 :: u32) \<noteq> 0 \<and>
   gcd_adf4350 0x80000001 0x80000000 = Inl Signed_Overflow \<and>
   reduce_fraction (state_25MHz\<lparr>r0_fract := 0x80000000, r1_mod := 0x80000001\<rparr>) =
     Inl Signed_Overflow"
proof -
  have g: "gcd_adf4350 0x80000001 0x80000000 = Inl Signed_Overflow"
    by (rule gcd_adf4350_overflow) simp_all
  then show ?thesis by (simp add: reduce_fraction_def)
qed

text \<open>
  C10. \<open>gcd\<close> takes a remainder by zero, and has no result, exactly when one of its
  arguments is zero, and its only call, in the reduction step of \<open>adf4350_set_freq\<close>,
  never meets that case: in no state does the reduction end in a remainder or division by
  zero.
\<close>

theorem gcd_zero_argument_unreachable:
  "(gcd_adf4350 x y = Inl Div_By_Zero) = (x = 0 \<or> y = 0) \<and>
   reduce_fraction st \<noteq> Inl Div_By_Zero"
proof -
  have iff: "(gcd_adf4350 x y = Inl Div_By_Zero) = (x = 0 \<or> y = 0)" for x y
  proof (cases "x = 0 \<or> y = 0")
    case True
    then show ?thesis by (simp add: gcd_adf4350_zero)
  next
    case False
    show ?thesis
    proof (cases "unat x < 2 ^ 31 \<or> unat y < 2 ^ 31 \<or> x = y")
      case True
      with False gcd_adf4350_correct [of x y] obtain g where "gcd_adf4350 x y = Inr g"
        by auto
      with False show ?thesis by simp
    next
      case big: False
      then have "gcd_adf4350 x y = Inl Signed_Overflow"
        by (intro gcd_adf4350_overflow) simp_all
      with False show ?thesis by simp
    qed
  qed
  have "reduce_fraction st \<noteq> Inl Div_By_Zero"
  proof (cases "r0_fract st \<noteq> 0 \<and> r1_mod st \<noteq> 0")
    case True
    then have nz: "gcd_adf4350 (r1_mod st) (r0_fract st) \<noteq> Inl Div_By_Zero"
      by (simp add: iff)
    show ?thesis
    proof (cases "gcd_adf4350 (r1_mod st) (r0_fract st)")
      case (Inl e)
      with nz True show ?thesis by (simp add: reduce_fraction_def)
    next
      case (Inr g)
      with gcd_adf4350_sound [OF Inr] True show ?thesis by (simp add: reduce_fraction_def)
    qed
  next
    case False
    then show ?thesis by (auto simp: reduce_fraction_def)
  qed
  with iff show ?thesis by simp
qed

section \<open>Properties of adf4350_tune_r_cnt\<close>

lemma pfd_hz_fpfd [simp]: "pfd_hz (st\<lparr>fpfd := v\<rparr>) = pfd_hz st"
  by (simp add: pfd_hz_def fun_eq_iff)






section \<open>Properties of adf4350_set_freq\<close>

text \<open>
  C8. A requested frequency above \<open>ADF4350_MAX_OUT_FREQ\<close> or below
  \<open>ADF4350_MIN_OUT_FREQ\<close> makes \<open>adf4350_set_freq\<close> return a negative value with the
  state and the bus unchanged.
\<close>

theorem set_freq_out_of_range:
  assumes "freq > MAX_OUT_FREQ hdr \<or> freq < MIN_OUT_FREQ hdr"
  shows "\<exists>ret. adf4350_set_freq hdr spi st bus freq = Some (ret, st, bus) \<and> sint ret < 0"
  using assms by (auto simp: adf4350_set_freq_def)

theorem set_freq_out_of_range_witness:
  "(5000000000 :: u64) > MAX_OUT_FREQ adf4350_h \<and>
   (34374999 :: u64) < MIN_OUT_FREQ adf4350_h \<and>
   adf4350_set_freq adf4350_h spi_ok state_25MHz [] 5000000000 = Some (- 1, state_25MHz, []) \<and>
   adf4350_set_freq adf4350_h spi_ok state_25MHz [] 34374999 = Some (- 1, state_25MHz, [])"
proof -
  have hi: "(5000000000 :: u64) > MAX_OUT_FREQ adf4350_h \<or> (5000000000 :: u64) < MIN_OUT_FREQ adf4350_h"
    by (simp add: adf4350_h_def)
  have lo: "(34374999 :: u64) > MAX_OUT_FREQ adf4350_h \<or> (34374999 :: u64) < MIN_OUT_FREQ adf4350_h"
    by (simp add: adf4350_h_def)
  from set_freq_out_of_range [OF hi, of spi_ok state_25MHz "[]"]
       set_freq_out_of_range [OF lo, of spi_ok state_25MHz "[]"]
  show ?thesis
    by (simp add: adf4350_h_def adf4350_set_freq_def)
qed

text \<open>
  The fraction left by the search: \<open>r0_fract\<close> is a remainder modulo a non-zero \<open>r1_mod\<close>.
\<close>

lemma ucast_mod_less:
  fixes tmp :: u64 and m :: u32
  assumes "m \<noteq> 0"
  shows "(ucast (tmp mod ucast m) :: u32) < m"
proof -
  have "unat m < 2 ^ 32" using unsigned_less [of m] by simp
  then have m: "unat (ucast m :: u64) = unat m"
    by (simp add: unsigned_ucast_eq take_bit_nat_eq_self)
  from assms have "0 < unat m" by (simp add: unat_gt_0)
  then have lt: "unat (tmp mod ucast m) < unat m" by (simp add: unat_mod m)
  moreover have "unat m < 2 ^ 32" using unsigned_less [of m] by simp
  ultimately have "unat (ucast (tmp mod ucast m) :: u32) = unat (tmp mod ucast m)"
    by (simp add: unsigned_ucast_eq take_bit_nat_eq_self)
  with lt show ?thesis by (simp add: word_less_nat_alt)
qed

lemma set_freq_search_fraction:
  "set_freq_search hdr freq mdiv st r_cnt c = Some (st', r', c') \<Longrightarrow>
     r1_mod st' \<noteq> 0 \<and> r0_fract st' < r1_mod st'"
proof (induction hdr freq mdiv st r_cnt c rule: set_freq_search.induct)
  case (1 hdr freq mdiv st r_cnt c)
  from "1.prems" obtain ret st1 where tune: "adf4350_tune_r_cnt hdr st r_cnt = Some (ret, st1)"
    by (subst (asm) set_freq_search.simps) (auto split: option.splits)
  from "1.prems" tune have c: "c \<noteq> 0"
    by (subst (asm) set_freq_search.simps) (auto split: if_splits)
  define r_cnt1 where "r_cnt1 = (ucast ret :: u16)"
  define st2 where "st2 = st1\<lparr>r1_mod := fpfd st1 div c\<rparr>"
  define over where "over = (r_cnt1 > MAX_R_CNT hdr)"
  define chspc1 where "chspc1 = (if over then c + 1 else c)"
  define r_cnt2 where "r_cnt2 = (if over then 0 else r_cnt1)"
  note defs = r_cnt1_def st2_def over_def chspc1_def r_cnt2_def
  have unfold: "set_freq_search hdr freq mdiv st r_cnt c =
     (if r1_mod st2 > MAX_MODULUS hdr \<and> r_cnt2 \<noteq> 0
      then set_freq_search hdr freq mdiv st2 r_cnt2 chspc1
      else if r_cnt2 = 0
      then set_freq_search hdr freq mdiv st2 r_cnt2 chspc1
      else
        (case div_ratio freq (r1_mod st2) (fpfd st2) of
           None \<Rightarrow> None
         | Some tmp \<Rightarrow>
             if r1_mod st2 = 0 then None
             else
               let st3 = st2\<lparr>r0_fract := ucast (tmp mod ucast (r1_mod st2))\<rparr>;
                   tmp' = tmp div ucast (r1_mod st3);
                   st4 = st3\<lparr>r0_int := ucast tmp'\<rparr>
               in if ucast mdiv > r0_int st4
                  then set_freq_search hdr freq mdiv st4 r_cnt2 chspc1
                  else Some (st4, r_cnt2, chspc1)))"
    unfolding defs by (subst set_freq_search.simps) (simp add: tune c Let_def)
  note run = "1.prems" [unfolded unfold]
  show ?case
  proof (cases "r1_mod st2 > MAX_MODULUS hdr \<and> r_cnt2 \<noteq> 0")
    case True
    with run have "set_freq_search hdr freq mdiv st2 r_cnt2 chspc1 = Some (st', r', c')"
      by simp
    from "1.IH"(1) [OF tune refl c r_cnt1_def st2_def over_def chspc1_def r_cnt2_def True this]
    show ?thesis .
  next
    case False
    note notinner = False
    show ?thesis
    proof (cases "r_cnt2 = 0")
      case True
      with run have "set_freq_search hdr freq mdiv st2 r_cnt2 chspc1 = Some (st', r', c')"
        by simp
      from "1.IH"(2) [OF tune refl c r_cnt1_def st2_def over_def chspc1_def r_cnt2_def
          notinner True this]
      show ?thesis .
    next
      case False
      with run notinner obtain tmp
        where ratio: "div_ratio freq (r1_mod st2) (fpfd st2) = Some tmp"
        by (auto split: option.splits)
      from run notinner False ratio have mnz: "r1_mod st2 \<noteq> 0"
        by (auto split: if_splits)
      define st3 where "st3 = st2\<lparr>r0_fract := ucast (tmp mod ucast (r1_mod st2))\<rparr>"
      define tmp' where "tmp' = tmp div ucast (r1_mod st3)"
      define st4 where "st4 = st3\<lparr>r0_int := ucast tmp'\<rparr>"
      from run notinner False ratio mnz
      have run4: "(if ucast mdiv > r0_int st4
                   then set_freq_search hdr freq mdiv st4 r_cnt2 chspc1
                   else Some (st4, r_cnt2, chspc1)) = Some (st', r', c')"
        unfolding st4_def tmp'_def st3_def by (simp add: Let_def)
      show ?thesis
      proof (cases "ucast mdiv > r0_int st4")
        case True
        with run4 have "set_freq_search hdr freq mdiv st4 r_cnt2 chspc1 = Some (st', r', c')"
          by simp
        from "1.IH"(3) [OF tune refl c r_cnt1_def st2_def over_def chspc1_def r_cnt2_def
            notinner False ratio mnz st3_def tmp'_def st4_def True this]
        show ?thesis .
      next
        case False
        with run4 have "st' = st4" by simp
        with mnz ucast_mod_less [OF mnz, of tmp] show ?thesis
          by (simp add: st4_def st3_def)
      qed
    qed
  qed
qed

lemma reduce_fraction_invariant:
  assumes "reduce_fraction st = Inr st'" and "r0_fract st < r1_mod st"
  shows "1 \<le> r1_mod st' \<and> r0_fract st' < r1_mod st' \<and> (r0_fract st' = 0 \<longrightarrow> r1_mod st' = 1)"
proof (cases "r0_fract st \<noteq> 0 \<and> r1_mod st \<noteq> 0")
  case True
  let ?a = "unat (r0_fract st)" and ?b = "unat (r1_mod st)"
  from reduce_fraction_Inr [OF assms(1) True] obtain g
    where g: "g \<noteq> 0" "unat g = gcd ?b ?a"
      "st' = st\<lparr>r1_mod := r1_mod st div g, r0_fract := r0_fract st div g\<rparr>"
    by blast
  then have st': "r1_mod st' = r1_mod st div g" "r0_fract st' = r0_fract st div g"
    by simp_all
  from True have apos: "0 < ?a" by (simp add: unat_gt_0)
  from assms(2) have lt: "?a < ?b" by (simp add: word_less_nat_alt)
  have gpos: "0 < gcd ?b ?a" using apos by simp
  have "?b div gcd ?b ?a * gcd ?b ?a = ?b" by (simp add: dvd_div_mult_self)
  with lt have "?a div gcd ?b ?a < ?b div gcd ?b ?a"
    by (simp add: div_less_iff_less_mult [OF gpos])
  moreover from apos have "gcd ?b ?a \<le> ?a" by (simp add: dvd_imp_le)
  with gpos have "0 < ?a div gcd ?b ?a" by (simp add: div_greater_zero_iff)
  ultimately have n: "?a div gcd ?b ?a < ?b div gcd ?b ?a" "0 < ?a div gcd ?b ?a" by simp_all
  then have "unat (r0_fract st') < unat (r1_mod st')" "0 < unat (r0_fract st')"
    by (simp_all add: st' unat_div g(2))
  then have "r0_fract st' < r1_mod st'" "r0_fract st' \<noteq> 0"
    by (simp_all add: word_less_nat_alt unat_gt_0)
  moreover from \<open>unat (r0_fract st') < unat (r1_mod st')\<close> have "1 \<le> r1_mod st'"
    by (simp add: word_le_nat_alt)
  ultimately show ?thesis by simp
next
  case False
  with assms(1) have "st' = st\<lparr>r0_fract := 0, r1_mod := 1\<rparr>"
    by (auto simp: reduce_fraction_def)
  then show ?thesis by simp
qed


lemma set_regs_fraction:
  "r1_mod (set_regs hdr prescaler r_cnt bsd st) = r1_mod st"
  "r0_fract (set_regs hdr prescaler r_cnt bsd st) = r0_fract st"
  by (simp_all add: set_regs_def Let_def)

lemma sync_config_fraction:
  assumes "adf4350_sync_config spi st bus = (ret, st', bus')"
  shows "r1_mod st' = r1_mod st" "r0_fract st' = r0_fract st"
proof -
  from assms have "sync_loop spi 5 False st bus = (ret, st', bus')"
    by (simp add: adf4350_sync_config_def)
  from sync_loop_fields [OF this] have eq: "st' = st\<lparr>regs_hw := regs_hw st', val := val st'\<rparr>" .
  from arg_cong [OF eq, of r1_mod] show "r1_mod st' = r1_mod st" by simp
  from arg_cong [OF eq, of r0_fract] show "r0_fract st' = r0_fract st" by simp
qed

lemma set_freq_in_range_fraction:
  assumes run: "adf4350_set_freq hdr spi st bus freq = Some (ret, st', bus')"
    and range: "\<not> (freq > MAX_OUT_FREQ hdr \<or> freq < MIN_OUT_FREQ hdr)"
  shows "1 \<le> r1_mod st' \<and> r0_fract st' < r1_mod st' \<and> (r0_fract st' = 0 \<longrightarrow> r1_mod st' = 1)"
proof -
  from run range obtain freq' mdiv st1 r_cnt c st2 r_cnt' chspc' bsd st3 prescaler r where
    search: "set_freq_search hdr freq' mdiv st1 r_cnt c = Some (st2, r_cnt', chspc')"
    and red: "reduce_fraction st2 = Inr st3"
    and sync: "adf4350_sync_config spi (set_regs hdr prescaler r_cnt' bsd st3) bus = (r, st', bus')"
    unfolding adf4350_set_freq_def
    by (auto simp: Let_def split: option.splits sum.splits prod.splits if_splits)
  from set_freq_search_fraction [OF search] have "r0_fract st2 < r1_mod st2" by simp
  from reduce_fraction_invariant [OF red this]
  have "1 \<le> r1_mod st3 \<and> r0_fract st3 < r1_mod st3 \<and> (r0_fract st3 = 0 \<longrightarrow> r1_mod st3 = 1)" .
  with sync_config_fraction [OF sync] show ?thesis
    by (simp add: set_regs_fraction)
qed

text \<open>The example run, evaluated.\<close>

lemma set_freq_35MHz:
  "adf4350_set_freq adf4350_h spi_ok state_25MHz [] 35000000 =
     Some (35000000, state_35MHz, transfers_35MHz)"
  by code_simp

text \<open>
  C6. After a call of \<open>adf4350_set_freq\<close> that returns a non-negative value, \<open>r1_mod\<close> is
  at least 1 and \<open>r0_fract\<close> is below \<open>r1_mod\<close>; \<open>r1_mod\<close> is 1 when \<open>r0_fract\<close> is 0.
\<close>

theorem set_freq_fraction_invariant:
  assumes "adf4350_set_freq hdr spi st bus freq = Some (ret, st', bus')" and "0 \<le> sint ret"
  shows "1 \<le> r1_mod st' \<and> r0_fract st' < r1_mod st' \<and> (r0_fract st' = 0 \<longrightarrow> r1_mod st' = 1)"
proof (rule set_freq_in_range_fraction [OF assms(1)])
  show "\<not> (freq > MAX_OUT_FREQ hdr \<or> freq < MIN_OUT_FREQ hdr)"
  proof
    assume "freq > MAX_OUT_FREQ hdr \<or> freq < MIN_OUT_FREQ hdr"
    with assms(1) have "ret = - 1" by (simp add: adf4350_set_freq_def)
    with assms(2) show False by simp
  qed
qed

theorem set_freq_fraction_invariant_witness:
  "0 \<le> sint (35000000 :: s64) \<and>
   adf4350_set_freq adf4350_h spi_ok state_25MHz [] 35000000 =
     Some (35000000, state_35MHz, transfers_35MHz) \<and>
   r0_fract state_35MHz = 3 \<and> r1_mod state_35MHz = 5 \<and>
   1 \<le> r1_mod state_35MHz \<and> r0_fract state_35MHz < r1_mod state_35MHz"
proof -
  have ok: "0 \<le> sint (35000000 :: s64)" by simp
  from set_freq_fraction_invariant [OF set_freq_35MHz ok] ok set_freq_35MHz
  show ?thesis by (simp add: state_35MHz_def)
qed

text \<open>
  The band select clock divider is the low byte of the truncated quotient
  \<open>fpfd / ADF4350_MAX_BANDSEL_CLK\<close>, plus 1 when the remainder is strictly above half of
  \<open>ADF4350_MAX_BANDSEL_CLK\<close>.
\<close>

lemma band_sel_div_low_byte:
  assumes nz: "MAX_BANDSEL_CLK hdr \<noteq> 0"
  shows "\<exists>d. band_sel_div hdr pfd = Some d \<and>
           unat d = (unat pfd div unat (MAX_BANDSEL_CLK hdr) +
                     (if unat (MAX_BANDSEL_CLK hdr) div 2 < unat pfd mod unat (MAX_BANDSEL_CLK hdr)
                      then 1 else 0)) mod 256"
proof -
  let ?B = "MAX_BANDSEL_CLK hdr"
  let ?q = "unat pfd div unat ?B"
  have q: "unat (pfd div ?B) = ?q" by (simp add: unat_div)
  have cond: "(pfd mod ?B > ?B div 2) = (unat ?B div 2 < unat pfd mod unat ?B)"
    by (simp add: word_less_nat_alt unat_mod unat_div)
  have byte: "\<And>w :: u32. unat (ucast w :: u8) = unat w mod 256"
    by (simp add: unsigned_ucast_eq take_bit_eq_mod)
  show ?thesis
  proof (cases "unat ?B div 2 < unat pfd mod unat ?B")
    case True
    then have "unat ?B \<noteq> 1" by auto
    moreover from nz have "unat ?B \<noteq> 0" by (simp add: unat_eq_0)
    ultimately have "2 \<le> unat ?B" by simp
    then have "?q \<le> unat pfd div 2" by (intro div_le_mono2) simp_all
    moreover have "unat pfd < 2 ^ 32" using unsigned_less [of pfd] by simp
    ultimately have "unat (pfd div ?B) + unat (1 :: u32) < 2 ^ 32" by (simp add: q)
    then have "unat (pfd div ?B + 1) = ?q + 1"
      using unat_add_lem [of "pfd div ?B" 1] by (simp add: q)
    with True nz cond show ?thesis by (simp add: band_sel_div_def byte)
  next
    case False
    with nz cond show ?thesis by (simp add: band_sel_div_def byte q)
  qed
qed

text \<open>
  At 256 and above the low byte is not the value: in the example configuration a PFD of
  32 MHz (quotient 256) and one of 31937501 Hz (quotient 255, rounded up) give 0.
\<close>

lemma band_sel_div_truncates:
  "band_sel_div adf4350_h 32000000 = Some 0 \<and> band_sel_div adf4350_h 31937501 = Some 0"
  by (simp add: band_sel_div_def adf4350_h_def)

text \<open>
  C2. With a non-zero \<open>ADF4350_MAX_BANDSEL_CLK\<close>, and where the result is below 256, the
  band select clock divider is the truncated quotient \<open>fpfd / ADF4350_MAX_BANDSEL_CLK\<close>,
  plus 1 exactly when the remainder is strictly above half of \<open>ADF4350_MAX_BANDSEL_CLK\<close>:
  a remainder of exactly half leaves the truncated quotient.
\<close>

theorem band_sel_div_rounding:
  assumes nz: "MAX_BANDSEL_CLK hdr \<noteq> 0"
    and fits: "unat pfd div unat (MAX_BANDSEL_CLK hdr) +
               (if unat (MAX_BANDSEL_CLK hdr) div 2 < unat pfd mod unat (MAX_BANDSEL_CLK hdr)
                then 1 else 0) < 256"
  shows "\<exists>d. band_sel_div hdr pfd = Some d \<and>
           unat d = unat pfd div unat (MAX_BANDSEL_CLK hdr) +
                    (if unat (MAX_BANDSEL_CLK hdr) div 2 < unat pfd mod unat (MAX_BANDSEL_CLK hdr)
                     then 1 else 0)"
proof -
  from band_sel_div_low_byte [OF nz, of pfd] obtain d where
    d: "band_sel_div hdr pfd = Some d"
      "unat d = (unat pfd div unat (MAX_BANDSEL_CLK hdr) +
                 (if unat (MAX_BANDSEL_CLK hdr) div 2 < unat pfd mod unat (MAX_BANDSEL_CLK hdr)
                  then 1 else 0)) mod 256"
    by blast
  from d(2) fits have "unat d = unat pfd div unat (MAX_BANDSEL_CLK hdr) +
                 (if unat (MAX_BANDSEL_CLK hdr) div 2 < unat pfd mod unat (MAX_BANDSEL_CLK hdr)
                  then 1 else 0)"
    by (simp only: mod_less)
  with d(1) show ?thesis by blast
qed

theorem band_sel_div_rounding_witness:
  "MAX_BANDSEL_CLK adf4350_h \<noteq> 0 \<and>
   unat (31937500 :: u32) div unat (MAX_BANDSEL_CLK adf4350_h) +
     (if unat (MAX_BANDSEL_CLK adf4350_h) div 2
          < unat (31937500 :: u32) mod unat (MAX_BANDSEL_CLK adf4350_h)
      then 1 else 0) < 256 \<and>
   band_sel_div adf4350_h 31937500 = Some 255 \<and>
   band_sel_div adf4350_h 25000000 = Some 200 \<and>
   band_sel_div adf4350_h 62501 = Some 1 \<and>
   band_sel_div adf4350_h 62500 = Some 0"
proof -
  have nz: "MAX_BANDSEL_CLK adf4350_h \<noteq> 0" by (simp add: adf4350_h_def)
  have fits: "unat (31937500 :: u32) div unat (MAX_BANDSEL_CLK adf4350_h) +
     (if unat (MAX_BANDSEL_CLK adf4350_h) div 2
          < unat (31937500 :: u32) mod unat (MAX_BANDSEL_CLK adf4350_h)
      then 1 else 0) < 256"
    by (simp add: adf4350_h_def)
  from band_sel_div_rounding [OF nz fits] obtain d where
    "band_sel_div adf4350_h 31937500 = Some d" by blast
  moreover have "band_sel_div adf4350_h 31937500 = Some 255"
    "band_sel_div adf4350_h 25000000 = Some 200"
    "band_sel_div adf4350_h 62501 = Some 1" "band_sel_div adf4350_h 62500 = Some 0"
    by (simp_all add: band_sel_div_def adf4350_h_def)
  ultimately show ?thesis using nz fits by simp
qed

text \<open>
  At the tie 62500 Hz (half of 125 kHz) rounding half up gives 1; the code gives 0.
\<close>

theorem band_sel_div_tie_counterexample:
  "unat (62500 :: u32) mod unat (MAX_BANDSEL_CLK adf4350_h) = unat (MAX_BANDSEL_CLK adf4350_h) div 2 \<and>
   band_sel_half_up (unat (62500 :: u32)) (unat (MAX_BANDSEL_CLK adf4350_h)) = 1 \<and>
   band_sel_div adf4350_h 62500 = Some 0"
  by (simp add: band_sel_div_def band_sel_half_up_def adf4350_h_def)

text \<open>
  C3. The divide ratio adds \<open>(fpfd > 1)\<close>, that is 0 or 1, before the division, not half
  of the divisor: it is not the round-to-closest quotient. For 2400.007 MHz at a PFD of
  25 MHz and modulus 2500 the exact quotient is 240000.7; the code computes 240000 where
  rounding to closest gives 240001, and \<open>adf4350_set_freq\<close> programs INT 96, FRAC 0 and
  returns 2400 MHz.
\<close>

theorem div_ratio_not_round_closest:
  "div_ratio 2400007000 2500 25000000 = Some 240000 \<and>
   div_round_closest (2400007000 * 2500) 25000000 = 240001 \<and>
   (case adf4350_set_freq adf4350_h spi_ok state_25MHz [] 2400007000 of
      None \<Rightarrow> False
    | Some (ret, st', bus') \<Rightarrow>
        fpfd st' = 25000000 \<and> r0_int st' = 96 \<and> r0_fract st' = 0 \<and> r1_mod st' = 1 \<and>
        ret = 2400000000)"
proof (intro conjI)
  show "div_ratio 2400007000 2500 25000000 = Some 240000"
    by (simp add: div_ratio_def)
  show "div_round_closest (2400007000 * 2500) 25000000 = 240001"
    by (simp add: div_round_closest_def)
  show "case adf4350_set_freq adf4350_h spi_ok state_25MHz [] 2400007000 of
      None \<Rightarrow> False
    | Some (ret, st', bus') \<Rightarrow>
        fpfd st' = 25000000 \<and> r0_int st' = 96 \<and> r0_fract st' = 0 \<and> r1_mod st' = 1 \<and>
        ret = 2400000000"
    by code_simp
qed

text \<open>Conversions between the widths used by the return value.\<close>

lemma sint_nonneg_uint:
  fixes w :: u64
  assumes "0 \<le> sint w"
  shows "sint w = uint w"
proof (cases "uint w < 2 ^ 63")
  case True
  have "- (2 ^ 63) \<le> (0 :: int)" by simp
  also have "0 \<le> uint w" by simp
  finally have "signed_take_bit 63 (uint w) = uint w"
    using True by (rule signed_take_bit_int_eq_self)
  then show ?thesis by (simp add: sint_uint)
next
  case False
  have s: "sint w = signed_take_bit 63 (uint w)" by (simp add: sint_uint)
  from False have "signed_take_bit 63 (uint w) \<le> uint w - 2 ^ Suc 63"
    by (intro signed_take_bit_int_less_eq) simp
  then have "signed_take_bit 63 (uint w) \<le> uint w - 18446744073709551616" by simp
  moreover have "uint w < 18446744073709551616" using uint_bounded [of w] by simp
  ultimately have "signed_take_bit 63 (uint w) < 0" by linarith
  with assms s show ?thesis by linarith
qed

lemma uint_ucast_32_64: "uint (ucast (r :: u32) :: u64) = uint r"
  by (rule uint_up_ucast) (simp add: is_up)

lemma sint_scast_32_64: "sint (scast (r :: s32) :: s64) = sint r"
  by (rule sint_up_scast) (simp add: is_up)

lemma uint_push_bit_1:
  assumes "n < 64"
  shows "uint (2 ^ n :: u64) = 2 ^ n"
proof -
  from assms have "(2 :: int) ^ n < 2 ^ 64" by (intro power_strict_increasing) simp_all
  then have "take_bit 64 ((2 :: int) ^ n) = 2 ^ n"
    by (intro take_bit_int_eq_self) simp_all
  moreover have "uint (push_bit n 1 :: u64) = take_bit 64 (push_bit n (uint (1 :: u64)))"
    by (subst unsigned_push_bit_eq) simp
  ultimately show ?thesis by simp
qed

lemma achieved_freq_exact:
  assumes run: "achieved_freq st = Some ret"
    and fits32: "uint (r0_int st) * uint (r1_mod st) + uint (r0_fract st) < 2 ^ 32"
    and fits64: "uint (r1_mod st) * 2 ^ unat (r4_rf_div_sel st) < 2 ^ 64"
  shows "uint ret = achieved_exact st"
proof -
  let ?s = "r0_int st * r1_mod st + r0_fract st"
  let ?n = "unat (r4_rf_div_sel st)"
  from run have n: "?n < 64" by (auto simp: achieved_freq_def split: if_splits)
  from run n have ret: "ret = (ucast ?s :: u64) * ucast (fpfd st) div
                               (ucast (r1_mod st) * push_bit ?n 1)"
    by (auto simp: achieved_freq_def Let_def split: if_splits)
  have "0 \<le> uint (r0_fract st)" by simp
  with fits32 have "uint (r0_int st) * uint (r1_mod st) < 2 ^ 32" by linarith
  then have prod: "uint (r0_int st * r1_mod st) = uint (r0_int st) * uint (r1_mod st)"
    using uint_mult_lem [of "r0_int st" "r1_mod st"] by simp
  with fits32 have sum: "uint ?s = uint (r0_int st) * uint (r1_mod st) + uint (r0_fract st)"
    using uint_add_lem [of "r0_int st * r1_mod st" "r0_fract st"] by simp
  have "uint ?s < 2 ^ 32" "uint (fpfd st) < 2 ^ 32"
    using uint_bounded [of ?s] uint_bounded [of "fpfd st"] by simp_all
  then have "uint ?s * uint (fpfd st) < 2 ^ 32 * 2 ^ 32"
    by (intro mult_strict_mono) simp_all
  then have "uint (ucast ?s :: u64) * uint (ucast (fpfd st) :: u64) < 2 ^ 64"
    by (simp add: uint_ucast_32_64)
  then have num: "uint ((ucast ?s :: u64) * ucast (fpfd st)) = uint ?s * uint (fpfd st)"
    using uint_mult_lem [of "ucast ?s :: u64" "ucast (fpfd st)"]
    by (simp add: uint_ucast_32_64)
  from fits64 n
  have "uint (ucast (r1_mod st) :: u64) * uint (push_bit ?n 1 :: u64) < 2 ^ 64"
    by (simp add: uint_ucast_32_64 uint_push_bit_1)
  then have den: "uint ((ucast (r1_mod st) :: u64) * push_bit ?n 1) = uint (r1_mod st) * 2 ^ ?n"
    using uint_mult_lem [of "ucast (r1_mod st) :: u64" "push_bit ?n 1"] n
    by (simp add: uint_ucast_32_64 uint_push_bit_1)
  show ?thesis
    unfolding ret uint_div num den sum achieved_exact_def ..
qed

lemma set_freq_success_achieved:
  assumes run: "adf4350_set_freq hdr spi st bus freq = Some (ret, st', bus')"
    and ok: "0 \<le> sint ret"
  shows "achieved_freq st' = Some ret"
proof -
  have neg: "\<And>r :: s32. sint r < 0 \<Longrightarrow> \<not> 0 \<le> sint (scast r :: s64)"
    by (simp add: sint_scast_32_64)
  from run ok neg show ?thesis
    unfolding adf4350_set_freq_def
    by (auto simp: Let_def split: option.splits sum.splits prod.splits if_splits)
qed

text \<open>
  C4. After a call of \<open>adf4350_set_freq\<close> that returns a non-negative value, the value is
  the achieved frequency computed on unbounded integers, provided that
  \<open>r0_int * r1_mod + r0_fract\<close> is below \<open>2 ^ 32\<close> and \<open>r1_mod * 2 ^ r4_rf_div_sel\<close> is
  below \<open>2 ^ 64\<close>.
\<close>

theorem set_freq_achieved_exact:
  assumes "adf4350_set_freq hdr spi st bus freq = Some (ret, st', bus')"
    and "0 \<le> sint ret"
    and "uint (r0_int st') * uint (r1_mod st') + uint (r0_fract st') < 2 ^ 32"
    and "uint (r1_mod st') * 2 ^ unat (r4_rf_div_sel st') < 2 ^ 64"
  shows "sint ret = achieved_exact st'"
proof -
  from set_freq_success_achieved [OF assms(1,2)] have "achieved_freq st' = Some ret" .
  from achieved_freq_exact [OF this assms(3,4)] sint_nonneg_uint [OF assms(2)]
  show ?thesis by simp
qed

theorem set_freq_achieved_exact_witness:
  "0 \<le> sint (35000000 :: s64) \<and>
   adf4350_set_freq adf4350_h spi_ok state_25MHz [] 35000000 =
     Some (35000000, state_35MHz, transfers_35MHz) \<and>
   uint (r0_int state_35MHz) * uint (r1_mod state_35MHz) + uint (r0_fract state_35MHz) < 2 ^ 32 \<and>
   uint (r1_mod state_35MHz) * 2 ^ unat (r4_rf_div_sel state_35MHz) < 2 ^ 64 \<and>
   achieved_exact state_35MHz = 35000000"
proof -
  have ok: "0 \<le> sint (35000000 :: s64)" by simp
  have a: "uint (r0_int state_35MHz) * uint (r1_mod state_35MHz) + uint (r0_fract state_35MHz)
             < 2 ^ 32"
    by (simp add: state_35MHz_def)
  have b: "uint (r1_mod state_35MHz) * 2 ^ unat (r4_rf_div_sel state_35MHz) < 2 ^ 64"
    by (simp add: state_35MHz_def)
  from set_freq_achieved_exact [OF set_freq_35MHz ok a b] ok a b set_freq_35MHz
  show ?thesis by simp
qed

text \<open>
  With a 4 kHz reference and 1 Hz channel spacing, a request for 4399996001 Hz gives INT
  1099999, FRAC/MOD 1/4000 and a PFD of 4 kHz; \<open>r0_int * r1_mod + r0_fract\<close> is 4399996001,
  above \<open>2 ^ 32\<close>, the 32-bit sum wraps to 105028705 and that is the value returned.
\<close>

theorem set_freq_achieved_wraps_counterexample:
  "(case adf4350_set_freq adf4350_h spi_ok (state_25MHz\<lparr>clkin := 4000, chspc := 1\<rparr>) []
           4399996001 of
      None \<Rightarrow> False
    | Some (ret, st', bus') \<Rightarrow>
        r0_int st' = 1099999 \<and> r1_mod st' = 4000 \<and> r0_fract st' = 1 \<and>
        sint ret = 105028705 \<and> achieved_exact st' = 4399996001)"
  by code_simp

end
